theory Spec2Isabelle
  imports
    Main
    "HOL-Library.AList"
    "HOL-Library.Char_ord"
    "HOL-Library.List_Lexorder"
    "HOL-Library.Multiset"
begin

section \<open>Python values used by the macro registry\<close>

text \<open>
  A Python \<open>str\<close> is modelled as \<^typ>\<open>string\<close>, the list of its UTF-8 bytes. The
  registry only searches for the ASCII character \<open>=\<close>, cuts a string in front of it and
  compares whole strings. A byte below 128 never occurs inside a multi-byte UTF-8
  sequence, and the bytewise lexicographic order of UTF-8 is the code point order, so
  all three operations give the same answers on bytes as on code points. The order
  on \<^typ>\<open>string\<close> is the lexicographic one of \<open>List_Lexorder\<close> over the byte order of
  \<open>Char_ord\<close>.
\<close>

text \<open>
  \<open>str.find\<close> for a needle of one character: the index of its first occurrence, or
  \<open>-1\<close> when there is none.
\<close>

fun find_from :: "char \<Rightarrow> string \<Rightarrow> int \<Rightarrow> int" where
  "find_from c [] i = - 1"
| "find_from c (x # xs) i = (if x = c then i else find_from c xs (i + 1))"

definition str_find :: "string \<Rightarrow> char \<Rightarrow> int" where
  "str_find s c = find_from c s 0"

text \<open>
  The dictionary \<open>_dict\<close> keeps its keys in insertion order, and \<open>as_list\<close> reads the
  values in that order before sorting them. It is therefore an association list:
  \<open>d.get(k)\<close> is \<^const>\<open>map_of\<close>, \<open>d[k] = v\<close> is \<^const>\<open>AList.update\<close> (an existing
  key keeps its place, a new key goes to the end), \<open>del d[k]\<close> is
  \<^const>\<open>AList.delete\<close> and \<open>d.values()\<close> is \<open>map snd\<close>.
\<close>

type_synonym MacroDefinitions = "(string \<times> string) list"

section \<open>The class \<open>_MacroDefinitions\<close>\<close>

text \<open>
  Every method takes the object and returns its result together with the object
  afterwards.
\<close>

definition init :: MacroDefinitions where
  "init = []"

definition get_name :: "string \<Rightarrow> string" where
  "get_name definition =
     (let equal_index = str_find definition (CHR ''='')
      in if equal_index = - 1 then definition
         else take (nat equal_index) definition)"

definition add :: "MacroDefinitions \<Rightarrow> string \<Rightarrow> string option \<times> MacroDefinitions" where
  "add self definition =
     (let name = get_name definition;
          old_value = map_of self name;
          self' = AList.update name definition self
      in (old_value, self'))"

definition remove :: "MacroDefinitions \<Rightarrow> string \<Rightarrow> string option \<times> MacroDefinitions" where
  "remove self name =
     (let old_value = map_of self name;
          self' = (if old_value \<noteq> None then AList.delete name self else self)
      in (old_value, self'))"

definition as_list :: "MacroDefinitions \<Rightarrow> string list \<times> MacroDefinitions" where
  "as_list self =
     (let defines = map snd self;
          defines = sort defines
      in (defines, self))"

section \<open>The merge of macro definitions in \<open>main\<close>\<close>

text \<open>
  What \<open>main\<close> reads is modelled as its input: the parsed command line (the three
  repeatable options the merge uses) and the dependencies of \<open>conanbuildinfo.json\<close>.
  \<open>os.path.abspath\<close> is a parameter. Running conan, installing clang-format and writing
  the two JSON files happen before and after the merge and do not touch the registry;
  the model returns the \<open>includePath\<close> and \<open>defines\<close> entries of the generated
  configuration.
\<close>

record dep_info =
  include_paths :: "string list"
  dep_defines :: "string list"

record args =
  arg_include :: "string list"
  arg_define :: "string list"
  arg_undefine :: "string list"

datatype error = RuntimeError string

definition conflict_message :: "string \<Rightarrow> string \<Rightarrow> string" where
  "conflict_message old_value define =
     ''Multiple defines from conan dependencies for the same macro: ''
       @ [CHR 0x22] @ old_value @ [CHR 0x22] @ '' and '' @ [CHR 0x22] @ define @ [CHR 0x22]"

text \<open>The inner loop over the definitions of one dependency.\<close>

fun merge_defines :: "MacroDefinitions \<Rightarrow> string list \<Rightarrow> error + MacroDefinitions" where
  "merge_defines macro_defs [] = Inr macro_defs"
| "merge_defines macro_defs (define # rest) =
     (case add macro_defs define of (old_value, macro_defs') \<Rightarrow>
        if old_value \<noteq> None \<and> old_value \<noteq> Some define
        then Inl (RuntimeError (conflict_message (the old_value) define))
        else merge_defines macro_defs' rest)"

text \<open>The outer loop over the dependencies; the state is \<open>(includes, macro_defs)\<close>.\<close>

fun merge_dependencies ::
  "string list \<times> MacroDefinitions \<Rightarrow> dep_info list \<Rightarrow> error + string list \<times> MacroDefinitions" where
  "merge_dependencies state [] = Inr state"
| "merge_dependencies (includes, macro_defs) (info # rest) =
     (let includes = includes @ include_paths info
      in case merge_defines macro_defs (dep_defines info) of
           Inl e \<Rightarrow> Inl e
         | Inr macro_defs' \<Rightarrow> merge_dependencies (includes, macro_defs') rest)"

text \<open>The two loops over the user's \<open>--define\<close> and \<open>--undefine\<close> options.\<close>

fun add_all :: "MacroDefinitions \<Rightarrow> string list \<Rightarrow> MacroDefinitions" where
  "add_all macro_defs [] = macro_defs"
| "add_all macro_defs (define # rest) = add_all (snd (add macro_defs define)) rest"

fun remove_all :: "MacroDefinitions \<Rightarrow> string list \<Rightarrow> MacroDefinitions" where
  "remove_all macro_defs [] = macro_defs"
| "remove_all macro_defs (undefine # rest) = remove_all (snd (remove macro_defs undefine)) rest"

definition main ::
  "(string \<Rightarrow> string) \<Rightarrow> args \<Rightarrow> dep_info list \<Rightarrow> error + string list \<times> string list" where
  "main abspath a dependencies =
     (let macro_defs = init;
          includes = map abspath (arg_include a)
      in case merge_dependencies (includes, macro_defs) dependencies of
           Inl e \<Rightarrow> Inl e
         | Inr (includes, macro_defs) \<Rightarrow>
             (let macro_defs = add_all macro_defs (arg_define a);
                  macro_defs = remove_all macro_defs (arg_undefine a)
              in Inr (includes, fst (as_list macro_defs))))"

section \<open>Sequences of method calls\<close>

text \<open>
  The three public methods as operations, and the registry reached by calling them in
  turn.
\<close>

datatype operation = Add string | Remove string | As_list

fun apply_operation :: "MacroDefinitions \<Rightarrow> operation \<Rightarrow> MacroDefinitions" where
  "apply_operation self (Add definition) = snd (add self definition)"
| "apply_operation self (Remove name) = snd (remove self name)"
| "apply_operation self As_list = snd (as_list self)"

fun run :: "MacroDefinitions \<Rightarrow> operation list \<Rightarrow> MacroDefinitions" where
  "run self [] = self"
| "run self (operation # rest) = run (apply_operation self operation) rest"

text \<open>
  The representation invariant of the registry: the keys are pairwise distinct, as in
  any dictionary, and every definition is stored under its own name.
\<close>

definition invar :: "MacroDefinitions \<Rightarrow> bool" where
  "invar self \<longleftrightarrow> distinct (map fst self) \<and> (\<forall>p \<in> set self. fst p = get_name (snd p))"

section \<open>Names of definitions\<close>

lemma find_from_takeWhile:
  "find_from c xs i = (if c \<in> set xs then i + int (length (takeWhile (\<lambda>x. x \<noteq> c) xs)) else - 1)"
  by (induction xs arbitrary: i) auto

lemma take_length_takeWhile: "take (length (takeWhile P xs)) xs = takeWhile P xs"
  by (induction xs) auto

lemma takeWhile_absent: "c \<notin> set xs \<Longrightarrow> takeWhile (\<lambda>x. x \<noteq> c) xs = xs"
  by (induction xs) auto

lemma takeWhile_neq_absent:
  "c \<notin> set xs \<Longrightarrow> takeWhile (\<lambda>x. x \<noteq> c) (xs @ ys) = xs @ takeWhile (\<lambda>x. x \<noteq> c) ys"
  by (induction xs) auto

lemma str_find_absent: "str_find s c = - 1 \<longleftrightarrow> c \<notin> set s"
  by (simp add: str_find_def find_from_takeWhile)

lemma get_name_takeWhile: "get_name d = takeWhile (\<lambda>x. x \<noteq> CHR ''='') d"
proof (cases "CHR ''='' \<in> set d")
  case True
  then have "str_find d (CHR ''='') = int (length (takeWhile (\<lambda>x. x \<noteq> CHR ''='') d))"
    by (simp add: str_find_def find_from_takeWhile)
  then show ?thesis
    by (simp add: get_name_def Let_def take_length_takeWhile)
next
  case False
  then have "str_find d (CHR ''='') = - 1"
    by (simp add: str_find_absent)
  with False show ?thesis
    by (simp add: get_name_def takeWhile_absent)
qed

text \<open>
  C4. A definition \<open>N=V\<close> whose part \<open>N\<close> holds no \<open>=\<close> has the name \<open>N\<close>, whatever
  \<open>V\<close> is, so the name of a definition with a \<open>=\<close> is what stands before the first
  one; a definition without \<open>=\<close> is its own name, and the name of the empty
  definition is empty. \<open>get_name\<close> is a total function of its argument alone.
\<close>

theorem get_name_spec:
  "(CHR ''='' \<notin> set N \<longrightarrow> get_name (N @ CHR ''='' # V) = N) \<and>
   (CHR ''='' \<notin> set D \<longrightarrow> get_name D = D) \<and>
   get_name [] = []"
  by (simp add: get_name_takeWhile takeWhile_neq_absent takeWhile_absent)

theorem get_name_spec_witness:
  "get_name ''foo=a=b'' = ''foo'' \<and> get_name ''foo'' = ''foo''"
  using get_name_spec [of "''foo''" "''a=b''" "''foo''"] by simp

section \<open>The methods of the registry\<close>

lemma add_eq: "add self d = (map_of self (get_name d), AList.update (get_name d) d self)"
  by (simp add: add_def Let_def)

lemma remove_eq:
  "remove self n = (map_of self n, if map_of self n \<noteq> None then AList.delete n self else self)"
  by (simp add: remove_def Let_def)

lemma fst_as_list: "fst (as_list self) = sort (map snd self)"
  by (simp add: as_list_def)

lemma snd_as_list: "snd (as_list self) = self"
  by (simp add: as_list_def)

lemma run_append: "run self (xs @ ys) = run (run self xs) ys"
  by (induction xs arbitrary: self) simp_all

text \<open>
  C2. \<open>add\<close> returns what was stored under the name of the definition (nothing when
  the name is fresh) and afterwards the name maps to the new definition, every other
  name being untouched. On a fresh name the result is \<open>None\<close>, and a second \<open>add\<close> of
  any definition with the same name returns the first definition.
\<close>

theorem add_spec:
  "fst (add self D) = map_of self (get_name D) \<and>
   map_of (snd (add self D)) = (map_of self)(get_name D \<mapsto> D) \<and>
   (map_of self (get_name D) = None \<longrightarrow>
      fst (add self D) = None \<and>
      (get_name D' = get_name D \<longrightarrow> fst (add (snd (add self D)) D') = Some D))"
  by (simp add: add_eq update_conv')

theorem add_spec_witness:
  "fst (add init ''foo=bar'') = None \<and>
   fst (add (snd (add init ''foo=bar'')) ''foo'') = Some ''foo=bar''"
  using add_spec [of init "''foo=bar''" "''foo''"]
  by (simp add: init_def get_name_takeWhile)

text \<open>
  C10. The empty definition is an entry like any other: on the fresh registry
  \<open>add\<close> of the empty string returns \<open>None\<close> and stores it under the empty name, the list
  is then the one empty string, and \<open>remove\<close> of the empty name returns the empty
  string, not \<open>None\<close>, and leaves the registry empty.
\<close>

theorem empty_definition:
  "add init '''' = (None, [('''', '''')]) \<and>
   fst (as_list (snd (add init ''''))) = [''''] \<and>
   remove (snd (add init '''')) '''' = (Some '''', init)"
  by (simp add: add_eq remove_eq as_list_def init_def get_name_takeWhile)

text \<open>
  C8. \<open>as_list\<close> leaves the registry as it was, a second call returns the same list,
  and a call of \<open>as_list\<close> anywhere in a sequence of operations does not change the
  registry the sequence ends in.
\<close>

theorem as_list_pure:
  "snd (as_list self) = self \<and>
   fst (as_list (snd (as_list self))) = fst (as_list self) \<and>
   run self (before @ As_list # after) = run self (before @ after)"
  by (simp add: run_append snd_as_list)

text \<open>
  C3. The result of \<open>as_list\<close> is sorted in the order of whole strings and holds
  exactly the stored definitions, each as often as it is stored. The fresh registry
  gives the empty list; \<open>a=1\<close>, \<open>c=2\<close>, \<open>b=3\<close> come out as \<open>a=1\<close>, \<open>b=3\<close>, \<open>c=2\<close>;
  and \<open>A1\<close> comes before \<open>A=x\<close> although the name \<open>A\<close> is smaller than the name \<open>A1\<close>.
\<close>

theorem as_list_sorted:
  "sorted (fst (as_list self)) \<and>
   mset (fst (as_list self)) = mset (map snd self) \<and>
   fst (as_list init) = [] \<and>
   fst (as_list (run init [Add ''a=1'', Add ''c=2'', Add ''b=3''])) = [''a=1'', ''b=3'', ''c=2''] \<and>
   fst (as_list (run init [Add ''A=x'', Add ''A1''])) = [''A1'', ''A=x''] \<and>
   ''A'' < ''A1''"
  by (simp add: fst_as_list init_def add_eq get_name_takeWhile)

section \<open>The invariant\<close>

lemma invar_init: "invar init"
  by (simp add: invar_def init_def)

lemma set_update_subset: "set (AList.update k v al) \<subseteq> insert (k, v) (set al)"
  by (induction al) auto

lemma set_delete_subset: "set (AList.delete k al) \<subseteq> set al"
  by (induction al) auto

lemma invar_add: "invar self \<Longrightarrow> invar (snd (add self d))"
  unfolding invar_def add_eq using set_update_subset [of "get_name d" d self]
  by (auto simp: distinct_update)

lemma invar_remove: "invar self \<Longrightarrow> invar (snd (remove self n))"
  unfolding invar_def remove_eq using set_delete_subset [of n self]
  by (auto simp: distinct_delete)

lemma invar_as_list: "invar self \<Longrightarrow> invar (snd (as_list self))"
  by (simp add: as_list_def)

lemma invar_apply_operation: "invar self \<Longrightarrow> invar (apply_operation self operation)"
  by (cases operation) (simp_all add: invar_add invar_remove invar_as_list)

lemma invar_run: "invar self \<Longrightarrow> invar (run self operations)"
  by (induction operations arbitrary: self) (simp_all add: invar_apply_operation)

lemma invar_add_all: "invar self \<Longrightarrow> invar (add_all self ds)"
  by (induction ds arbitrary: self) (simp_all add: invar_add)

lemma invar_remove_all: "invar self \<Longrightarrow> invar (remove_all self ns)"
  by (induction ns arbitrary: self) (simp_all add: invar_remove)

lemma distinct_map_sort: "distinct (map f (sort xs)) = distinct (map f xs)"
  by (rule mset_eq_imp_distinct_iff) simp

lemma invar_names_distinct:
  assumes "invar self"
  shows "distinct (map get_name (fst (as_list self)))"
proof -
  from assms have "map get_name (map snd self) = map fst self" and "distinct (map fst self)"
    by (simp_all add: invar_def)
  then have "distinct (map get_name (map snd self))"
    by metis
  then show ?thesis
    by (simp only: fst_as_list distinct_map_sort)
qed

text \<open>
  C6. After any sequence of \<open>add\<close>, \<open>remove\<close> and \<open>as_list\<close> calls on the fresh
  registry no name is stored twice, and the names of the definitions that \<open>as_list\<close>
  returns are pairwise distinct.
\<close>

theorem names_distinct:
  "distinct (map fst (run init operations)) \<and>
   distinct (map get_name (fst (as_list (run init operations))))"
  using invar_run [OF invar_init, of operations]
  by (simp add: invar_names_distinct) (simp add: invar_def)

section \<open>Removal\<close>

lemma get_name_idem: "get_name (get_name d) = get_name d"
proof -
  have "CHR ''='' \<notin> set (takeWhile (\<lambda>x. x \<noteq> CHR ''='') d)"
    by (auto dest: set_takeWhileD)
  then show ?thesis
    by (simp add: get_name_takeWhile takeWhile_absent)
qed

lemma map_of_remove: "map_of (snd (remove self n)) = (map_of self)(n := None)"
  by (auto simp: remove_eq delete_conv')

lemma keys_remove: "fst ` set (snd (remove self n)) = fst ` set self - {n}"
  using arg_cong [OF map_of_remove [of self n], of dom]
  by (simp add: dom_map_of_conv_image_fst)

lemma listed_names:
  assumes "invar self" and "d \<in> set (fst (as_list self))"
  shows "get_name d \<in> fst ` set self"
proof -
  from assms(2) obtain p where p: "p \<in> set self" and d: "d = snd p"
    by (auto simp: fst_as_list)
  with assms(1) have "fst p = get_name d"
    by (simp add: invar_def)
  with p show ?thesis
    by (metis imageI)
qed

lemma stored_name:
  assumes "invar self" and "map_of self n = Some v"
  shows "get_name n = n"
proof -
  from assms(2) have "(n, v) \<in> set self"
    by (rule map_of_SomeD)
  with assms(1) have "n = get_name v"
    by (auto simp: invar_def)
  then show ?thesis
    by (metis get_name_idem)
qed

lemma remove_present:
  assumes "invar self" and "map_of self n = Some v"
  shows "fst (remove self n) = Some v"
    and "map_of (snd (remove self n)) = (map_of self)(n := None)"
    and "\<forall>d \<in> set (fst (as_list (snd (remove self n)))). get_name d \<noteq> n"
    and "n \<notin> set (fst (as_list (snd (remove self n))))"
proof -
  show "fst (remove self n) = Some v"
    using assms(2) by (simp add: remove_eq)
  show "map_of (snd (remove self n)) = (map_of self)(n := None)"
    by (rule map_of_remove)
  have inv: "invar (snd (remove self n))"
    using assms(1) by (rule invar_remove)
  show names: "\<forall>d \<in> set (fst (as_list (snd (remove self n)))). get_name d \<noteq> n"
  proof
    fix d assume "d \<in> set (fst (as_list (snd (remove self n))))"
    with inv have "get_name d \<in> fst ` set (snd (remove self n))"
      by (rule listed_names)
    then show "get_name d \<noteq> n"
      by (auto simp: keys_remove)
  qed
  from assms have "get_name n = n"
    by (rule stored_name)
  with names show "n \<notin> set (fst (as_list (snd (remove self n))))"
    by metis
qed

text \<open>
  C5. On a registry reached from the fresh one by any sequence of operations: when a
  definition is stored under the name, \<open>remove\<close> returns it, the name is no longer
  stored, and afterwards \<open>as_list\<close> holds neither a definition with that name nor the
  name itself; when nothing is stored under the name, \<open>remove\<close> returns \<open>None\<close> and the
  registry and its list are what they were. \<open>remove\<close> is a total function.
\<close>

theorem remove_spec:
  assumes "self = run init operations"
  shows "(map_of self name = Some v \<longrightarrow>
            fst (remove self name) = Some v \<and>
            map_of (snd (remove self name)) = (map_of self)(name := None) \<and>
            (\<forall>d \<in> set (fst (as_list (snd (remove self name)))). get_name d \<noteq> name) \<and>
            name \<notin> set (fst (as_list (snd (remove self name))))) \<and>
         (map_of self name = None \<longrightarrow>
            remove self name = (None, self) \<and>
            fst (as_list (snd (remove self name))) = fst (as_list self))"
proof -
  have "invar self"
    unfolding assms using invar_init by (rule invar_run)
  then show ?thesis
    using remove_present [of self name v] by (simp add: remove_eq)
qed

theorem remove_spec_witness:
  "remove (run init [Add ''foo=bar'']) ''foo'' = (Some ''foo=bar'', init) \<and>
   remove (run init [Add ''foo=bar'']) ''bar'' = (None, run init [Add ''foo=bar''])"
  using remove_spec [of "run init [Add ''foo=bar'']" "[Add ''foo=bar'']" "''foo''" "''foo=bar''"]
    remove_spec [of "run init [Add ''foo=bar'']" "[Add ''foo=bar'']" "''bar''"]
  by (simp add: init_def add_eq remove_eq get_name_takeWhile)

section \<open>Insertion order\<close>

lemma run_map_Add: "run self (map Add ds) = add_all self ds"
  by (induction ds arbitrary: self) simp_all

lemma map_of_add: "map_of (snd (add self d)) = (map_of self)(get_name d \<mapsto> d)"
  by (simp add: add_eq update_conv')

lemma map_of_add_all_other:
  "k \<notin> get_name ` set ds \<Longrightarrow> map_of (add_all self ds) k = map_of self k"
  by (induction ds arbitrary: self) (simp_all add: map_of_add)

lemma map_of_add_all_added:
  "distinct (map get_name ds) \<Longrightarrow> d \<in> set ds \<Longrightarrow> map_of (add_all self ds) (get_name d) = Some d"
proof (induction ds arbitrary: self)
  case Nil
  then show ?case by simp
next
  case (Cons x ds)
  show ?case
  proof (cases "d = x")
    case True
    from Cons.prems(1) have "get_name x \<notin> get_name ` set ds"
      by simp
    then have "map_of (add_all (snd (add self x)) ds) (get_name x) = map_of (snd (add self x)) (get_name x)"
      by (rule map_of_add_all_other)
    with True show ?thesis
      by (simp add: map_of_add)
  next
    case False
    with Cons.prems have "distinct (map get_name ds)" and "d \<in> set ds"
      by simp_all
    then show ?thesis
      by (simp add: Cons.IH)
  qed
qed

lemma map_of_add_all_permuted:
  assumes "mset xs = mset ys" and "distinct (map get_name xs)"
  shows "map_of (add_all self xs) = map_of (add_all self ys)"
proof
  fix k
  from assms(1) have sets: "set xs = set ys"
    by (rule mset_eq_setD)
  from assms(1) have "mset (map get_name xs) = mset (map get_name ys)"
    by simp
  with assms(2) have dys: "distinct (map get_name ys)"
    by (metis mset_eq_imp_distinct_iff)
  show "map_of (add_all self xs) k = map_of (add_all self ys) k"
  proof (cases "k \<in> get_name ` set xs")
    case True
    then obtain d where d: "d \<in> set xs" and k: "k = get_name d"
      by auto
    from d sets have "d \<in> set ys"
      by simp
    with dys have "map_of (add_all self ys) (get_name d) = Some d"
      by (rule map_of_add_all_added)
    moreover from assms(2) d have "map_of (add_all self xs) (get_name d) = Some d"
      by (rule map_of_add_all_added)
    ultimately show ?thesis
      by (simp add: k)
  next
    case False
    then have "map_of (add_all self xs) k = map_of self k"
      by (rule map_of_add_all_other)
    moreover from False sets have "k \<notin> get_name ` set ys"
      by simp
    then have "map_of (add_all self ys) k = map_of self k"
      by (rule map_of_add_all_other)
    ultimately show ?thesis
      by simp
  qed
qed

lemma values_of_equal_maps:
  assumes "distinct (map fst al)" and "distinct (map fst bl)" and "map_of al = map_of bl"
  shows "mset (map snd al) = mset (map snd bl)"
proof -
  from assms have "set al = set bl"
    by (simp add: map_of_inject_set)
  moreover from assms(1) have "distinct al"
    by (simp add: distinct_map)
  moreover from assms(2) have "distinct bl"
    by (simp add: distinct_map)
  ultimately have "mset al = mset bl"
    by (simp add: set_eq_iff_mset_eq_distinct)
  then show ?thesis
    by (metis mset_map)
qed

lemma sort_cong_mset: "mset xs = mset ys \<Longrightarrow> sort xs = sort (ys :: 'a :: linorder list)"
  by (rule properties_for_sort) simp_all

lemma as_list_equal_maps:
  assumes "invar al" and "invar bl" and "map_of al = map_of bl"
  shows "fst (as_list al) = fst (as_list bl)"
proof -
  from assms have "distinct (map fst al)" and "distinct (map fst bl)"
    by (simp_all add: invar_def)
  then have "mset (map snd al) = mset (map snd bl)"
    using assms(3) by (rule values_of_equal_maps)
  then show ?thesis
    unfolding fst_as_list by (rule sort_cong_mset)
qed

lemma update_fresh: "k \<notin> fst ` set al \<Longrightarrow> AList.update k v al = al @ [(k, v)]"
  by (induction al) auto

lemma add_all_fresh:
  "distinct (map get_name ds) \<Longrightarrow> get_name ` set ds \<inter> fst ` set self = {} \<Longrightarrow>
   add_all self ds = self @ map (\<lambda>d. (get_name d, d)) ds"
proof (induction ds arbitrary: self)
  case Nil
  then show ?case by simp
next
  case (Cons x ds)
  from Cons.prems(2) have fresh: "get_name x \<notin> fst ` set self"
    by auto
  then have step: "snd (add self x) = self @ [(get_name x, x)]"
    by (simp add: add_eq update_fresh)
  from Cons.prems have "distinct (map get_name ds)"
    and "get_name ` set ds \<inter> fst ` set (self @ [(get_name x, x)]) = {}"
    by auto
  then have "add_all (self @ [(get_name x, x)]) ds
      = (self @ [(get_name x, x)]) @ map (\<lambda>d. (get_name d, d)) ds"
    by (rule Cons.IH)
  with step show ?case
    by simp
qed

text \<open>
  C7. Two sequences of \<open>add\<close> calls that are permutations of each other, with
  pairwise distinct names, give the same list when run after the same earlier
  operations; run on the fresh registry they give the sorted list of the definitions
  added.
\<close>

theorem insertion_order_irrelevant:
  assumes "mset xs = mset ys" and "distinct (map get_name xs)"
  shows "fst (as_list (run init (operations @ map Add xs)))
           = fst (as_list (run init (operations @ map Add ys))) \<and>
         fst (as_list (run init (map Add xs))) = sort xs"
proof
  let ?self = "run init operations"
  have inv: "invar ?self"
    using invar_init by (rule invar_run)
  have "fst (as_list (add_all ?self xs)) = fst (as_list (add_all ?self ys))"
    using inv assms by (intro as_list_equal_maps invar_add_all map_of_add_all_permuted)
  then show "fst (as_list (run init (operations @ map Add xs)))
           = fst (as_list (run init (operations @ map Add ys)))"
    by (simp add: run_append run_map_Add)
  have "add_all init xs = init @ map (\<lambda>d. (get_name d, d)) xs"
    using assms(2) by (rule add_all_fresh) (simp add: init_def)
  then show "fst (as_list (run init (map Add xs))) = sort xs"
    by (simp add: run_map_Add fst_as_list init_def comp_def)
qed

theorem insertion_order_irrelevant_witness:
  "fst (as_list (run init (map Add [''a=1'', ''c=2'', ''b=3''])))
     = fst (as_list (run init (map Add [''b=3'', ''a=1'', ''c=2''])))"
  using insertion_order_irrelevant [of "[''a=1'', ''c=2'', ''b=3'']" "[''b=3'', ''a=1'', ''c=2'']" "[]"]
  by (simp add: get_name_takeWhile)

section \<open>Conflicts between dependencies\<close>

lemma merge_defines_Inr: "merge_defines self ds = Inr self' \<Longrightarrow> self' = add_all self ds"
  by (induction ds arbitrary: self) (auto split: prod.splits if_splits)

lemma merge_defines_append:
  "merge_defines self (xs @ ys) =
     (case merge_defines self xs of Inl e \<Rightarrow> Inl e | Inr self' \<Rightarrow> merge_defines self' ys)"
  by (induction xs arbitrary: self) (auto split: prod.splits)

lemma merge_dependencies_concat:
  "merge_dependencies (incs, self) deps =
     (case merge_defines self (concat (map dep_defines deps)) of
        Inl e \<Rightarrow> Inl e
      | Inr self' \<Rightarrow> Inr (incs @ concat (map include_paths deps), self'))"
  by (induction deps arbitrary: incs self)
     (auto simp: merge_defines_append Let_def split: sum.splits)

lemma merge_defines_no_conflict:
  "merge_defines self ds = Inr (add_all self ds) \<longleftrightarrow>
     (\<forall>i<length ds. \<forall>old. fst (add (add_all self (take i ds)) (ds ! i)) = Some old \<longrightarrow> old = ds ! i)"
proof (induction ds arbitrary: self)
  case Nil
  then show ?case by simp
next
  case (Cons x ds)
  show ?case
  proof (cases "fst (add self x) \<noteq> None \<and> fst (add self x) \<noteq> Some x")
    case True
    then have "merge_defines self (x # ds) \<noteq> Inr (add_all self (x # ds))"
      by (auto split: prod.splits)
    moreover from True have "\<exists>old. fst (add (add_all self (take 0 (x # ds))) ((x # ds) ! 0)) = Some old \<and> old \<noteq> (x # ds) ! 0"
      by auto
    then have "\<not> (\<forall>i<length (x # ds). \<forall>old. fst (add (add_all self (take i (x # ds))) ((x # ds) ! i)) = Some old \<longrightarrow> old = (x # ds) ! i)"
      by (metis length_greater_0_conv list.distinct(1))
    ultimately show ?thesis
      by simp
  next
    case False
    then have "merge_defines self (x # ds) = merge_defines (snd (add self x)) ds"
      by (auto split: prod.splits)
    moreover from False have "\<forall>old. fst (add self x) = Some old \<longrightarrow> old = x"
      by auto
    ultimately show ?thesis
      by (simp add: Cons.IH All_less_Suc2)
  qed
qed

lemma merge_defines_Inl:
  "merge_defines self ds = Inl e \<Longrightarrow>
     \<exists>i<length ds. \<exists>old.
        fst (add (add_all self (take i ds)) (ds ! i)) = Some old \<and> old \<noteq> ds ! i \<and>
        e = RuntimeError (conflict_message old (ds ! i)) \<and>
        (\<forall>j<i. \<forall>old'. fst (add (add_all self (take j ds)) (ds ! j)) = Some old' \<longrightarrow> old' = ds ! j)"
proof (induction ds arbitrary: self)
  case Nil
  then show ?case by simp
next
  case (Cons x ds)
  show ?case
  proof (cases "fst (add self x) \<noteq> None \<and> fst (add self x) \<noteq> Some x")
    case True
    then obtain old where old: "fst (add self x) = Some old" "old \<noteq> x"
      by auto
    with Cons.prems have "e = RuntimeError (conflict_message old x)"
      by (auto split: prod.splits)
    with old show ?thesis
      by (intro exI [of _ 0] conjI exI [of _ old]) simp_all
  next
    case False
    with Cons.prems have "merge_defines (snd (add self x)) ds = Inl e"
      by (auto split: prod.splits)
    then obtain i old where i: "i < length ds"
      and old: "fst (add (add_all (snd (add self x)) (take i ds)) (ds ! i)) = Some old" "old \<noteq> ds ! i"
      and e: "e = RuntimeError (conflict_message old (ds ! i))"
      and before: "\<forall>j<i. \<forall>old'. fst (add (add_all (snd (add self x)) (take j ds)) (ds ! j)) = Some old' \<longrightarrow> old' = ds ! j"
      using Cons.IH by blast
    from False have first: "\<forall>old'. fst (add self x) = Some old' \<longrightarrow> old' = x"
      by auto
    from before first
    have "\<forall>j<Suc i. \<forall>old'. fst (add (add_all self (take j (x # ds))) ((x # ds) ! j)) = Some old' \<longrightarrow> old' = (x # ds) ! j"
      by (simp add: All_less_Suc2)
    with i old e show ?thesis
      by (intro exI [of _ "Suc i"] conjI exI [of _ old]) simp_all
  qed
qed

lemma conflict_message_content:
  "conflict_message old_value define =
     ''Multiple defines from conan dependencies for the same macro: ''
       @ [CHR 0x22] @ old_value @ [CHR 0x22] @ '' and '' @ [CHR 0x22] @ define @ [CHR 0x22]"
  by (fact conflict_message_def)

lemma merge_defines_cases:
  "(\<exists>e. merge_defines self ds = Inl e) \<longleftrightarrow> merge_defines self ds \<noteq> Inr (add_all self ds)"
  by (cases "merge_defines self ds") (auto dest: merge_defines_Inr)

text \<open>
  C1. Let \<open>ds\<close> be the definitions of all dependencies in the order of the merge. The
  registry in front of the \<open>i\<close>-th of them is the one all earlier definitions have
  been added to. The merge fails if and only if some call of \<open>add\<close> returns a
  definition different from the one just added; the error is then raised at the first
  such call, and its message is the fixed sentence of \<open>main\<close> followed by the returned
  definition in double quotes, the word \<open>and\<close>, and the added definition in double
  quotes, so it shows both conflicting strings in full. When every call returns
  nothing or the added definition itself, the merge succeeds with all definitions
  added.
\<close>

theorem dependency_conflict:
  assumes "ds = concat (map dep_defines deps)"
  shows "((\<exists>e. merge_dependencies (incs, self) deps = Inl e) \<longleftrightarrow>
            (\<exists>i<length ds. \<exists>old.
               fst (add (add_all self (take i ds)) (ds ! i)) = Some old \<and> old \<noteq> ds ! i)) \<and>
         (merge_dependencies (incs, self) deps = Inl e \<longrightarrow>
            (\<exists>i<length ds. \<exists>old.
               fst (add (add_all self (take i ds)) (ds ! i)) = Some old \<and> old \<noteq> ds ! i \<and>
               e = RuntimeError (conflict_message old (ds ! i)) \<and>
               e = RuntimeError
                     (''Multiple defines from conan dependencies for the same macro: ''
                        @ [CHR 0x22] @ old @ [CHR 0x22] @ '' and ''
                        @ [CHR 0x22] @ ds ! i @ [CHR 0x22]) \<and>
               (\<forall>j<i. \<forall>old'. fst (add (add_all self (take j ds)) (ds ! j)) = Some old'
                  \<longrightarrow> old' = ds ! j))) \<and>
         ((\<forall>i<length ds. \<forall>old.
              fst (add (add_all self (take i ds)) (ds ! i)) = Some old \<longrightarrow> old = ds ! i) \<longrightarrow>
            merge_dependencies (incs, self) deps
              = Inr (incs @ concat (map include_paths deps), add_all self ds))"
proof (intro conjI impI)
  have "(\<exists>e. merge_dependencies (incs, self) deps = Inl e) \<longleftrightarrow> (\<exists>e. merge_defines self ds = Inl e)"
    by (auto simp: merge_dependencies_concat assms split: sum.splits)
  also have "\<dots> \<longleftrightarrow> \<not> (\<forall>i<length ds. \<forall>old.
      fst (add (add_all self (take i ds)) (ds ! i)) = Some old \<longrightarrow> old = ds ! i)"
    by (simp only: merge_defines_cases merge_defines_no_conflict)
  also have "\<dots> \<longleftrightarrow> (\<exists>i<length ds. \<exists>old.
      fst (add (add_all self (take i ds)) (ds ! i)) = Some old \<and> old \<noteq> ds ! i)"
    by blast
  finally show "(\<exists>e. merge_dependencies (incs, self) deps = Inl e) \<longleftrightarrow>
      (\<exists>i<length ds. \<exists>old.
         fst (add (add_all self (take i ds)) (ds ! i)) = Some old \<and> old \<noteq> ds ! i)" .
next
  assume "merge_dependencies (incs, self) deps = Inl e"
  then have "merge_defines self ds = Inl e"
    by (auto simp: merge_dependencies_concat assms split: sum.splits)
  then obtain i old where "i < length ds"
    and "fst (add (add_all self (take i ds)) (ds ! i)) = Some old" and "old \<noteq> ds ! i"
    and "e = RuntimeError (conflict_message old (ds ! i))"
    and "\<forall>j<i. \<forall>old'. fst (add (add_all self (take j ds)) (ds ! j)) = Some old' \<longrightarrow> old' = ds ! j"
    using merge_defines_Inl [of self ds e] by blast
  moreover from this(4) have "e = RuntimeError
      (''Multiple defines from conan dependencies for the same macro: ''
         @ [CHR 0x22] @ old @ [CHR 0x22] @ '' and '' @ [CHR 0x22] @ ds ! i @ [CHR 0x22])"
    by (simp only: conflict_message_content)
  ultimately show "\<exists>i<length ds. \<exists>old.
       fst (add (add_all self (take i ds)) (ds ! i)) = Some old \<and> old \<noteq> ds ! i \<and>
       e = RuntimeError (conflict_message old (ds ! i)) \<and>
       e = RuntimeError
             (''Multiple defines from conan dependencies for the same macro: ''
                @ [CHR 0x22] @ old @ [CHR 0x22] @ '' and ''
                @ [CHR 0x22] @ ds ! i @ [CHR 0x22]) \<and>
       (\<forall>j<i. \<forall>old'. fst (add (add_all self (take j ds)) (ds ! j)) = Some old' \<longrightarrow> old' = ds ! j)"
    by blast
next
  assume "\<forall>i<length ds. \<forall>old.
      fst (add (add_all self (take i ds)) (ds ! i)) = Some old \<longrightarrow> old = ds ! i"
  then have "merge_defines self ds = Inr (add_all self ds)"
    by (simp only: merge_defines_no_conflict)
  then show "merge_dependencies (incs, self) deps
      = Inr (incs @ concat (map include_paths deps), add_all self ds)"
    by (simp add: merge_dependencies_concat assms)
qed

theorem dependency_conflict_witness:
  "merge_dependencies ([], init)
     [\<lparr>include_paths = [], dep_defines = [''X=1'']\<rparr>, \<lparr>include_paths = [], dep_defines = [''X=2'']\<rparr>]
     = Inl (RuntimeError (conflict_message ''X=1'' ''X=2'')) \<and>
   merge_dependencies ([], init)
     [\<lparr>include_paths = [], dep_defines = [''X=1'']\<rparr>, \<lparr>include_paths = [], dep_defines = [''X=2'']\<rparr>]
     = Inl (RuntimeError
         (''Multiple defines from conan dependencies for the same macro: ''
            @ [CHR 0x22] @ ''X=1'' @ [CHR 0x22] @ '' and '' @ [CHR 0x22] @ ''X=2'' @ [CHR 0x22])) \<and>
   merge_dependencies ([], init)
     [\<lparr>include_paths = [], dep_defines = [''X=1'']\<rparr>, \<lparr>include_paths = [], dep_defines = [''X=1'']\<rparr>]
     = Inr ([], [(''X'', ''X=1'')])"
proof (intro conjI)
  let ?A = "\<lparr>include_paths = [], dep_defines = [''X=1'']\<rparr>"
  let ?B = "\<lparr>include_paths = [], dep_defines = [''X=2'']\<rparr>"
  have ds: "[''X=1'', ''X=2''] = concat (map dep_defines [?A, ?B])"
    by simp
  have conflict: "\<exists>i<length [''X=1'', ''X=2'']. \<exists>old.
      fst (add (add_all init (take i [''X=1'', ''X=2''])) ([''X=1'', ''X=2''] ! i)) = Some old
        \<and> old \<noteq> [''X=1'', ''X=2''] ! i"
    by (intro exI [of _ 1] exI [of _ "''X=1''"]) (simp add: init_def add_eq get_name_takeWhile)
  note spec = dependency_conflict [OF ds, of "[]" init]
  from conflict spec obtain e where e: "merge_dependencies ([], init) [?A, ?B] = Inl e"
    by blast
  with spec [of e] obtain i old where "i < length [''X=1'', ''X=2'']"
    and old: "fst (add (add_all init (take i [''X=1'', ''X=2''])) ([''X=1'', ''X=2''] ! i)) = Some old"
      "old \<noteq> [''X=1'', ''X=2''] ! i"
    and msg: "e = RuntimeError (conflict_message old ([''X=1'', ''X=2''] ! i))"
    and literal: "e = RuntimeError
      (''Multiple defines from conan dependencies for the same macro: ''
         @ [CHR 0x22] @ old @ [CHR 0x22] @ '' and ''
         @ [CHR 0x22] @ [''X=1'', ''X=2''] ! i @ [CHR 0x22])"
    by blast
  then have "i = 0 \<or> i = 1"
    by auto
  with old have found: "i = 1 \<and> old = ''X=1''"
    by (auto simp: init_def add_eq get_name_takeWhile)
  with e msg show "merge_dependencies ([], init) [?A, ?B] = Inl (RuntimeError (conflict_message ''X=1'' ''X=2''))"
    by simp
  from found e literal show "merge_dependencies ([], init) [?A, ?B]
     = Inl (RuntimeError
         (''Multiple defines from conan dependencies for the same macro: ''
            @ [CHR 0x22] @ ''X=1'' @ [CHR 0x22] @ '' and '' @ [CHR 0x22] @ ''X=2'' @ [CHR 0x22]))"
    by simp
next
  let ?A = "\<lparr>include_paths = [], dep_defines = [''X=1'']\<rparr>"
  have ds: "[''X=1'', ''X=1''] = concat (map dep_defines [?A, ?A])"
    by simp
  have "\<forall>i<length [''X=1'', ''X=1'']. \<forall>old.
      fst (add (add_all init (take i [''X=1'', ''X=1''])) ([''X=1'', ''X=1''] ! i)) = Some old
        \<longrightarrow> old = [''X=1'', ''X=1''] ! i"
    by (simp add: All_less_Suc2 init_def add_eq get_name_takeWhile)
  with dependency_conflict [OF ds, of "[]" init]
  show "merge_dependencies ([], init) [?A, ?A] = Inr ([], [(''X'', ''X=1'')])"
    by (simp add: init_def add_eq get_name_takeWhile)
qed

section \<open>The user's options\<close>

lemma keys_remove_all: "fst ` set (remove_all self ns) = fst ` set self - set ns"
  by (induction ns arbitrary: self) (auto simp: keys_remove)

lemma invar_merge_dependencies:
  assumes "invar self" and "merge_dependencies (incs, self) deps = Inr (incs', self')"
  shows "invar self'"
proof -
  from assms(2) have "merge_defines self (concat (map dep_defines deps)) = Inr self'"
    by (auto simp: merge_dependencies_concat split: sum.splits)
  then have "self' = add_all self (concat (map dep_defines deps))"
    by (rule merge_defines_Inr)
  with assms(1) show ?thesis
    by (simp add: invar_add_all)
qed

lemma main_eq:
  "main abspath a deps =
     (case merge_dependencies (map abspath (arg_include a), init) deps of
        Inl e \<Rightarrow> Inl e
      | Inr (incs, self) \<Rightarrow>
          Inr (incs, fst (as_list (remove_all (add_all self (arg_define a)) (arg_undefine a)))))"
  by (simp add: main_def Let_def split: sum.splits prod.splits)

lemma undefined_names_absent:
  assumes "invar self" and "n \<in> set ns" and "d \<in> set (fst (as_list (remove_all self ns)))"
  shows "get_name d \<noteq> n"
proof -
  from assms(1) have "invar (remove_all self ns)"
    by (rule invar_remove_all)
  then have "get_name d \<in> fst ` set (remove_all self ns)"
    using assms(3) by (rule listed_names)
  with assms(2) show ?thesis
    by (auto simp: keys_remove_all)
qed

lemma main_undefine_example:
  "main abspath \<lparr>arg_include = [], arg_define = [], arg_undefine = [''DEBUG'']\<rparr>
     [\<lparr>include_paths = [], dep_defines = [''DEBUG'']\<rparr>] = Inr ([], [])"
  by (simp add: main_eq init_def add_eq remove_eq fst_as_list get_name_takeWhile)

lemma main_overwrite_example:
  "main abspath \<lparr>arg_include = [], arg_define = [''X=2''], arg_undefine = [''Y'']\<rparr>
     [\<lparr>include_paths = [], dep_defines = [''X=1'']\<rparr>] = Inr ([], [''X=2''])"
  by (simp add: main_eq init_def add_eq remove_eq fst_as_list get_name_takeWhile)

text \<open>
  C9. \<open>main\<close> fails exactly when the merge of the dependencies fails, with the same
  error: the user's options add no failure. After a successful merge the user's
  definitions are added without any check, the user's names are removed, and the
  result lists what is left; no listed definition has a name given to \<open>--undefine\<close>.
  A dependency that defines \<open>DEBUG\<close> with \<open>--undefine DEBUG\<close> gives the empty list, and
  \<open>--define X=2\<close> replaces the \<open>X=1\<close> of a dependency while \<open>--undefine Y\<close> of the
  undefined \<open>Y\<close> does nothing.
\<close>

theorem user_overrides:
  assumes "merged = merge_dependencies (map abspath (arg_include a), init) deps"
  shows "(main abspath a deps = Inl e \<longleftrightarrow> merged = Inl e) \<and>
         (merged = Inr (incs, self) \<longrightarrow>
            main abspath a deps
              = Inr (incs, fst (as_list (remove_all (add_all self (arg_define a)) (arg_undefine a))))) \<and>
         (main abspath a deps = Inr (incs', defs) \<longrightarrow>
            (\<forall>n \<in> set (arg_undefine a). \<forall>d \<in> set defs. get_name d \<noteq> n)) \<and>
         main abspath \<lparr>arg_include = [], arg_define = [], arg_undefine = [''DEBUG'']\<rparr>
            [\<lparr>include_paths = [], dep_defines = [''DEBUG'']\<rparr>] = Inr ([], []) \<and>
         main abspath \<lparr>arg_include = [], arg_define = [''X=2''], arg_undefine = [''Y'']\<rparr>
            [\<lparr>include_paths = [], dep_defines = [''X=1'']\<rparr>] = Inr ([], [''X=2''])"
proof (intro conjI impI ballI)
  show "main abspath a deps = Inl e \<longleftrightarrow> merged = Inl e"
    by (auto simp: main_eq assms split: sum.splits)
  show "main abspath a deps
      = Inr (incs, fst (as_list (remove_all (add_all self (arg_define a)) (arg_undefine a))))"
    if "merged = Inr (incs, self)"
    using that by (simp add: main_eq assms)
  show "main abspath \<lparr>arg_include = [], arg_define = [], arg_undefine = [''DEBUG'']\<rparr>
     [\<lparr>include_paths = [], dep_defines = [''DEBUG'']\<rparr>] = Inr ([], [])"
    by (rule main_undefine_example)
  show "main abspath \<lparr>arg_include = [], arg_define = [''X=2''], arg_undefine = [''Y'']\<rparr>
     [\<lparr>include_paths = [], dep_defines = [''X=1'']\<rparr>] = Inr ([], [''X=2''])"
    by (rule main_overwrite_example)
  fix n d
  assume ok: "main abspath a deps = Inr (incs', defs)"
    and n: "n \<in> set (arg_undefine a)" and d: "d \<in> set defs"
  from ok obtain self' where merged: "merged = Inr (incs', self')"
    and defs: "defs = fst (as_list (remove_all (add_all self' (arg_define a)) (arg_undefine a)))"
    by (auto simp: main_eq assms split: sum.splits)
  from merged have "invar self'"
    unfolding assms by (rule invar_merge_dependencies [OF invar_init])
  then have "invar (add_all self' (arg_define a))"
    by (rule invar_add_all)
  from this n d show "get_name d \<noteq> n"
    unfolding defs by (rule undefined_names_absent)
qed

theorem user_overrides_witness:
  "main id \<lparr>arg_include = [], arg_define = [''X=2''], arg_undefine = [''DEBUG'', ''Y'']\<rparr>
     [\<lparr>include_paths = [], dep_defines = [''DEBUG'', ''X=1'']\<rparr>] = Inr ([], [''X=2'']) \<and>
   get_name ''X=2'' \<noteq> ''DEBUG'' \<and> get_name ''X=2'' \<noteq> ''Y''"
proof -
  let ?a = "\<lparr>arg_include = [], arg_define = [''X=2''], arg_undefine = [''DEBUG'', ''Y'']\<rparr>"
  let ?deps = "[\<lparr>include_paths = [], dep_defines = [''DEBUG'', ''X=1'']\<rparr>]"
  have merged: "Inr ([], [(''DEBUG'', ''DEBUG''), (''X'', ''X=1'')])
      = merge_dependencies (map id (arg_include ?a), init) ?deps"
    by (simp add: init_def add_eq get_name_takeWhile)
  note spec = user_overrides [OF merged, of _ "[]" "[(''DEBUG'', ''DEBUG''), (''X'', ''X=1'')]" "[]" "[''X=2'']"]
  from spec have "main id ?a ?deps
      = Inr ([], fst (as_list (remove_all (add_all [(''DEBUG'', ''DEBUG''), (''X'', ''X=1'')]
          (arg_define ?a)) (arg_undefine ?a))))"
    by blast
  moreover have "fst (as_list (remove_all (add_all [(''DEBUG'', ''DEBUG''), (''X'', ''X=1'')]
      (arg_define ?a)) (arg_undefine ?a))) = [''X=2'']"
    by (simp add: add_eq remove_eq fst_as_list get_name_takeWhile)
  ultimately have result: "main id ?a ?deps = Inr ([], [''X=2''])"
    by (simp only:)
  moreover from spec result
  have "\<forall>n \<in> set (arg_undefine ?a). \<forall>d \<in> set [''X=2'']. get_name d \<noteq> n"
    by blast
  ultimately show ?thesis
    by simp
qed

end
